theory Spec2Isabelle
  imports Main "HOL-Library.Sublist"
begin

section \<open>Configuration constants\<close>

text \<open>The three module-level constants of \<^verbatim>\<open>app/think.py\<close>.\<close>

definition MAX_OBJECTIVES :: nat where
  "MAX_OBJECTIVES = 3"

definition MIN_STEPS :: nat where
  "MIN_STEPS = 3"

definition MAX_STEPS :: nat where
  "MAX_STEPS = 5"

section \<open>Data model\<close>

text \<open>
  The state classes are declared in \<^verbatim>\<open>app/models/state.py\<close>; the records below carry
  the fields that \<^verbatim>\<open>app/think.py\<close> reads and writes. Field names of the knowledge and
  step records are prefixed, since they share names with the objective's fields.
\<close>

datatype ObjectiveStatus = PENDING | IN_PROGRESS | COMPLETED | FAILED

record KnowledgeState =
  kn_description :: string
  kn_short_name :: string
  kn_source :: string

record StepState =
  st_short_name :: string
  st_body :: string

record ObjectiveState =
  answer :: "string option"
  completion_criteria :: string
  description :: string
  knowledges :: "KnowledgeState list"
  short_name :: string
  status :: ObjectiveStatus
  steps :: "StepState list"
  history :: "string list"

record Usage =
  prompt_tokens :: nat
  completion_tokens :: nat

definition add_usage :: "Usage \<Rightarrow> Usage \<Rightarrow> Usage" where
  "add_usage u d =
     \<lparr>prompt_tokens = prompt_tokens u + prompt_tokens d,
      completion_tokens = completion_tokens u + completion_tokens d\<rparr>"

text \<open>
  Modelled from the spec: the constructor of \<^verbatim>\<open>ObjectiveState\<close>, whose declaration is
  absent. The call sites in \<^verbatim>\<open>app/think.py\<close> pass the completion criteria, the
  description, the short name and (for the seed only) the knowledge items; the spec gives
  the other fields at creation: status PENDING, no steps, no transcript, no answer.
\<close>

definition new_ObjectiveState ::
  "string \<Rightarrow> string \<Rightarrow> KnowledgeState list \<Rightarrow> string \<Rightarrow> ObjectiveState" where
  "new_ObjectiveState criteria descr kns name =
     \<lparr>answer = None, completion_criteria = criteria, description = descr,
      knowledges = kns, short_name = name, status = PENDING, steps = [], history = []\<rparr>"

datatype error = GenerationError | ValidationError

section \<open>Completion adapters\<close>

text \<open>
  Modelled from the spec: \<^verbatim>\<open>non_empty_completion\<close> of \<^verbatim>\<open>app/helpers/llm.py\<close> (absent).
  It returns the model's text when that text is not empty and fails with a generation
  error otherwise; the argument is the text the model produced at the last attempt.
\<close>

definition non_empty_completion :: "string \<Rightarrow> error + string" where
  "non_empty_completion raw = (if raw = [] then Inl GenerationError else Inr raw)"

text \<open>
  Modelled from the spec: \<^verbatim>\<open>validated_completion\<close> (absent) for the step shape. It returns
  a value of the requested shape or fails with a validation error; the argument is the
  model's output after coercion, \<open>None\<close> when it could not be coerced.
\<close>

definition validated_StepState :: "StepState option \<Rightarrow> error + StepState" where
  "validated_StepState raw = (case raw of None \<Rightarrow> Inl ValidationError | Some st \<Rightarrow> Inr st)"

section \<open>Stop-check\<close>

text \<open>
  Python's \<^verbatim>\<open>str.lower\<close>. A text is the list of the bytes of its UTF-8 encoding; the
  ASCII capitals are mapped to their small letters and every other byte is kept. Python
  also lowers letters outside ASCII, which changes bytes above 127 only, except for two
  characters (U+0130 and U+212A) whose lower case holds the ASCII letters i and k; neither
  letter occurs in the sentinel, so the test below gives Python's answer on every text.
\<close>

definition lower_char :: "char \<Rightarrow> char" where
  "lower_char c =
     (case map_of (zip ''ABCDEFGHIJKLMNOPQRSTUVWXYZ'' ''abcdefghijklmnopqrstuvwxyz'') c of
        Some d \<Rightarrow> d
      | None \<Rightarrow> c)"

definition lower :: "string \<Rightarrow> string" where
  "lower s = map lower_char s"

text \<open>Python's \<^verbatim>\<open>needle in hay\<close> on strings: a scan for the needle at every position.\<close>

fun contains :: "string \<Rightarrow> string \<Rightarrow> bool" where
  "contains needle [] = (needle = [])"
| "contains needle (c # cs) = (prefix needle (c # cs) \<or> contains needle cs)"

definition sentinel :: string where
  "sentinel = ''can't answer''"

text \<open>
  \<^verbatim>\<open>_should_stop_objective\<close>, after its completion call has returned \<open>res\<close>: Python's
  \<^verbatim>\<open>False\<close> is \<open>None\<close>, a returned string is \<open>Some\<close>.
\<close>

definition should_stop_objective :: "string \<Rightarrow> string option" where
  "should_stop_objective res = (if contains sentinel (lower res) then None else Some res)"

section \<open>Objective runner\<close>

text \<open>
  \<^verbatim>\<open>_run_objective\<close> is a coroutine: it runs without interruption from one awaited
  completion call to the next. The control points at which it can be found are: scheduled
  and not yet run, waiting for the stop-check's completion, waiting for the step's
  completion, and returned. A job is a scheduled runner together with the objective it owns.
\<close>

datatype runner_pc = Spawned | AwaitStop | AwaitStep | Returned

record Job =
  objective :: ObjectiveState
  pc :: runner_pc

text \<open>Lines 433 to 443: the step cap, then the call that creates the next step.\<close>

definition check_max_steps :: "ObjectiveState \<Rightarrow> Job" where
  "check_max_steps ob =
     (if length (steps ob) \<ge> MAX_STEPS
      then \<lparr>objective = ob\<lparr>status := FAILED\<rparr>, pc = Returned\<rparr>
      else \<lparr>objective = ob, pc = AwaitStep\<rparr>)"

text \<open>Lines 419 to 426: the loop condition and the guard of the stop-check.\<close>

definition loop_head :: "ObjectiveState \<Rightarrow> Job" where
  "loop_head ob =
     (if status ob \<noteq> IN_PROGRESS then \<lparr>objective = ob, pc = Returned\<rparr>
      else if length (steps ob) \<ge> MIN_STEPS then \<lparr>objective = ob, pc = AwaitStop\<rparr>
      else check_max_steps ob)"

text \<open>Line 417: entering the runner.\<close>

definition run_objective :: "ObjectiveState \<Rightarrow> Job" where
  "run_objective ob = loop_head (ob\<lparr>status := IN_PROGRESS\<rparr>)"

text \<open>Lines 427 to 436: the stop-check has returned the text \<open>res\<close>.\<close>

definition resume_stop :: "ObjectiveState \<Rightarrow> string \<Rightarrow> Job" where
  "resume_stop ob res =
     (case should_stop_objective res of
        Some a \<Rightarrow> \<lparr>objective = ob\<lparr>status := COMPLETED, answer := Some a\<rparr>, pc = Returned\<rparr>
      | None \<Rightarrow> check_max_steps ob)"

text \<open>The knowledge tool of \<^verbatim>\<open>_new_step\<close>, called by the model while the step is awaited.\<close>

definition knowledge_tool :: "ObjectiveState \<Rightarrow> KnowledgeState \<Rightarrow> ObjectiveState" where
  "knowledge_tool ob k = ob\<lparr>knowledges := knowledges ob @ [k]\<rparr>"

text \<open>
  Lines 443 to 450: the step has been created. The result is the item put on the thinking
  queue and the runner at its next control point.
\<close>

definition resume_step :: "ObjectiveState \<Rightarrow> StepState \<Rightarrow> string \<times> Job" where
  "resume_step ob st = (st_short_name st, loop_head (ob\<lparr>steps := steps ob @ [st]\<rparr>))"

section \<open>Objective detector\<close>

text \<open>
  The class \<^verbatim>\<open>_Objective\<close> of \<^verbatim>\<open>_detect_new_objectives\<close>: one proposed task. The class
  \<^verbatim>\<open>_Res\<close> holds a list of them, of at most three.
\<close>

record Task =
  t_completion_criteria :: string
  t_description :: string
  t_short_name :: string

text \<open>
  Modelled from the spec: \<^verbatim>\<open>validated_completion\<close> (absent) for the shape \<^verbatim>\<open>_Res\<close>. The
  shape is declared in the source: \<^verbatim>\<open>tasks\<close> has \<^verbatim>\<open>max_length=3\<close>. Output that does not
  fit the shape is a validation error.
\<close>

definition validated_Res :: "Task list \<Rightarrow> error + Task list" where
  "validated_Res raw = (if length raw \<le> 3 then Inr raw else Inl ValidationError)"

text \<open>Python's truth value of an optional string: \<^verbatim>\<open>None\<close> and the empty string are false.\<close>

definition truthy :: "string option \<Rightarrow> bool" where
  "truthy a = (case a of None \<Rightarrow> False | Some t \<Rightarrow> t \<noteq> [])"

text \<open>An optional string inside an f-string.\<close>

definition str_opt :: "string option \<Rightarrow> string" where
  "str_opt a = (case a of None \<Rightarrow> ''None'' | Some t \<Rightarrow> t)"

text \<open>Python's \<^verbatim>\<open>sep.join(parts)\<close>.\<close>

fun join :: "string \<Rightarrow> string list \<Rightarrow> string" where
  "join sep [] = []"
| "join sep [x] = x"
| "join sep (x # y # ys) = x @ sep @ join sep (y # ys)"

text \<open>
  Lines 360 and 361: the two groups of lines of the digest sent to the detector. How a
  status prints inside an f-string depends on the enumeration's declaration, which is
  absent, so the rendering of a status is a parameter.
\<close>

definition digest ::
  "(ObjectiveStatus \<Rightarrow> string) \<Rightarrow> ObjectiveState list \<Rightarrow> string list \<times> string list" where
  "digest render obs =
     (map (\<lambda>ob. description ob @ '': '' @ str_opt (answer ob))
        (filter (\<lambda>ob. truthy (answer ob)) obs),
      map (\<lambda>ob. description ob @ '': '' @ render (status ob))
        (filter (\<lambda>ob. \<not> truthy (answer ob)) obs))"

text \<open>Lines 388 to 395: the objectives built from the validated tasks.\<close>

definition detect_new_objectives :: "Task list \<Rightarrow> ObjectiveState list" where
  "detect_new_objectives tasks =
     map (\<lambda>t. new_ObjectiveState (t_completion_criteria t) (t_description t) [] (t_short_name t))
       tasks"

section \<open>Answer synthesizer\<close>

text \<open>Lines 286 to 292: the knowledge context of \<^verbatim>\<open>_answer_user\<close>.\<close>

definition answers :: "ObjectiveState list \<Rightarrow> string" where
  "answers obs =
     join [CHR 0x0A]
       (map (\<lambda>ob. ''## '' @ short_name ob @ [CHR 0x0A] @ str_opt (answer ob))
          (filter (\<lambda>ob. status ob = COMPLETED) obs))"

section \<open>Queues and chunks\<close>

text \<open>
  Python's \<^verbatim>\<open>asyncio.Queue\<close>, unbounded: the items waiting, and the count of items put and
  not yet acknowledged with \<^verbatim>\<open>task_done\<close>, on which \<^verbatim>\<open>join\<close> waits.
\<close>

record Queue =
  items :: "string list"
  unfinished :: nat

definition empty_queue :: Queue where
  "empty_queue = \<lparr>items = [], unfinished = 0\<rparr>"

definition queue_put :: "Queue \<Rightarrow> string \<Rightarrow> Queue" where
  "queue_put q x = \<lparr>items = items q @ [x], unfinished = unfinished q + 1\<rparr>"

definition queue_get :: "Queue \<Rightarrow> (string \<times> Queue) option" where
  "queue_get q = (case items q of [] \<Rightarrow> None | x # xs \<Rightarrow> Some (x, q\<lparr>items := xs\<rparr>))"

definition task_done :: "Queue \<Rightarrow> Queue" where
  "task_done q = q\<lparr>unfinished := unfinished q - 1\<rparr>"

definition joined :: "Queue \<Rightarrow> bool" where
  "joined q = (unfinished q = 0)"

text \<open>
  A chunk put on the completions queue, with the fields that differ between chunks: the
  content of the delta, the usage and the finish reason. Model name, object tag, role and
  index are the same in all of them.
\<close>

record Chunk =
  ch_content :: "string option"
  ch_usage :: "Usage option"
  ch_finish_reason :: "string option"

definition content_chunk :: "string \<Rightarrow> Chunk" where
  "content_chunk c = \<lparr>ch_content = Some c, ch_usage = None, ch_finish_reason = None\<rparr>"

definition thinking_chunk :: "string \<Rightarrow> Chunk" where
  "thinking_chunk t =
     \<lparr>ch_content = Some (''<think>'' @ t @ ''</think>''), ch_usage = None,
      ch_finish_reason = None\<rparr>"

definition end_chunk :: "Usage \<Rightarrow> Chunk" where
  "end_chunk u = \<lparr>ch_content = None, ch_usage = Some u, ch_finish_reason = Some ''stop''\<rparr>"

section \<open>Session\<close>

text \<open>
  One streaming request. All coroutines run on one event loop, so the state changes only
  when one of them is resumed, and a resumed coroutine runs without interruption to its
  next awaited call. The state holds the data of \<^verbatim>\<open>ThinkState\<close>, the jobs of the scheduler
  (each objective is appended and its runner spawned in one uninterrupted stretch of
  \<^verbatim>\<open>_think\<close>, so an objective and its runner are kept together), the two queues, and the
  control point of every coroutine.

  The wording of the prompts, the aggregated knowledge text and the transcript kept in
  \<^verbatim>\<open>history\<close> are built by code outside \<^verbatim>\<open>app/think.py\<close> and only feed the completion
  calls, whose replies are arbitrary here. \<^verbatim>\<open>think_sync\<close> runs the same \<^verbatim>\<open>_think\<close> without
  consumers and is not part of the model.
\<close>

datatype driver_pc = D_Sleep | D_Detect | D_Answer string | D_Returned

datatype consumer_pc = Getting | Putting string | Cancelled

datatype stream_pc = S_Think | S_Join Usage | S_End

record Session =
  user_question :: string
  jobs :: "Job list"
  usage :: Usage
  driver :: driver_pc
  failed :: "error option"
  thinking_queue :: Queue
  content_queue :: Queue
  thinking_task :: consumer_pc
  content_task :: consumer_pc
  stream :: stream_pc
  completions :: "Chunk list"

definition objectives :: "Session \<Rightarrow> ObjectiveState list" where
  "objectives s = map objective (jobs s)"

text \<open>
  Modelled from the spec: the active-task count of the worker pool
  (\<^verbatim>\<open>aiojobs.Scheduler\<close>, an external library): the jobs spawned and not yet finished.
\<close>

definition active_count :: "Session \<Rightarrow> nat" where
  "active_count s = length (filter (\<lambda>j. pc j \<noteq> Returned) (jobs s))"

text \<open>Lines 264 to 265: after the loop, the synthesis call is issued.\<close>

definition answer_user :: "Session \<Rightarrow> Session" where
  "answer_user s = s\<lparr>driver := D_Answer (answers (objectives s))\<rparr>"

text \<open>Lines 212 to 218: wait for the pool to be idle, then call the detector.\<close>

definition poll :: "Session \<Rightarrow> Session" where
  "poll s = (if active_count s > 0 then s\<lparr>driver := D_Sleep\<rparr> else s\<lparr>driver := D_Detect\<rparr>)"

text \<open>Lines 207 to 210: the condition of the outer loop.\<close>

definition outer_loop :: "Session \<Rightarrow> Session" where
  "outer_loop s =
     (if list_ex (\<lambda>ob. status ob = IN_PROGRESS \<or> status ob = PENDING) (objectives s)
      then poll s else answer_user s)"

text \<open>
  Lines 217 to 224: admission. The first argument is \<^verbatim>\<open>state.objectives\<close>, the second
  \<^verbatim>\<open>new_objectives\<close>, the third what is left of the detector's proposals.
\<close>

fun admit ::
  "ObjectiveState list \<Rightarrow> ObjectiveState list \<Rightarrow> ObjectiveState list \<Rightarrow>
   ObjectiveState list \<times> ObjectiveState list" where
  "admit obs new [] = (obs, new)"
| "admit obs new (p # ps) =
     (if length obs \<ge> MAX_OBJECTIVES then (obs, new)
      else admit (obs @ [p]) (new @ [p]) ps)"

definition spawn :: "ObjectiveState \<Rightarrow> Job" where
  "spawn ob = \<lparr>objective = ob, pc = Spawned\<rparr>"

text \<open>Lines 217 to 248: the detector has returned \<open>tasks\<close>.\<close>

definition resume_detect :: "Session \<Rightarrow> Task list \<Rightarrow> Session" where
  "resume_detect s tasks =
     (let new = snd (admit (objectives s) [] (detect_new_objectives tasks)) in
      if new = [] then (if active_count s = 0 then answer_user s else outer_loop s)
      else outer_loop (s\<lparr>jobs := jobs s @ map spawn new\<rparr>))"

text \<open>Lines 175 to 204: the seed objective.\<close>

definition root_objective :: "string \<Rightarrow> ObjectiveState" where
  "root_objective question =
     new_ObjectiveState ''User meaning is clear.''
       ''Rephrase if needed. If it helps, cut the question into smaller parts.''
       [\<lparr>kn_description = question, kn_short_name = ''User question'',
         kn_source = ''User message''\<rparr>]
       ''Identify question''"

text \<open>
  \<^verbatim>\<open>think_stream\<close> up to the first suspension: the queues are created, \<^verbatim>\<open>_think\<close> seeds
  and spawns the root objective and enters its loop, the two consumers wait for items.
\<close>

definition think_stream :: "string \<Rightarrow> Session" where
  "think_stream question =
     outer_loop
       \<lparr>user_question = question, jobs = [spawn (root_objective question)],
        usage = \<lparr>prompt_tokens = 0, completion_tokens = 0\<rparr>, driver = D_Sleep,
        failed = None, thinking_queue = empty_queue, content_queue = empty_queue,
        thinking_task = Getting, content_task = Getting, stream = S_Think,
        completions = []\<rparr>"

subsection \<open>Events\<close>

text \<open>
  What the event loop and the collaborators can do to a session: run a spawned job,
  deliver the outcome of an awaited completion call (with the tokens it consumed), let
  the model call the knowledge tool during a step, wake the driver from its sleep, let a
  consumer take an item or finish putting its chunk, and resume \<^verbatim>\<open>think_stream\<close> after
  \<^verbatim>\<open>_think\<close> has returned and after both queues are joined.
\<close>

datatype action =
    Run nat
  | StopReply nat string Usage
  | ToolCall nat KnowledgeState
  | StepReply nat "StepState option" Usage
  | Wake
  | DetectReply "Task list" Usage
  | AnswerReply string Usage
  | ThinkingGet
  | ThinkingPut
  | ContentGet
  | ContentPut
  | ThinkDone
  | JoinDone

definition charge :: "Session \<Rightarrow> Usage \<Rightarrow> Session" where
  "charge s u = s\<lparr>usage := add_usage (usage s) u\<rparr>"

text \<open>
  Modelled from the spec: a failed completion call is not caught by \<^verbatim>\<open>app/think.py\<close> and
  aborts the session; no runner and no driver code runs afterwards. What the worker pool
  does with a job that raises is decided by the external library.
\<close>

definition abort :: "Session \<Rightarrow> error \<Rightarrow> Session" where
  "abort s e = s\<lparr>failed := Some e\<rparr>"

definition job_at :: "Session \<Rightarrow> nat \<Rightarrow> runner_pc \<Rightarrow> ObjectiveState option" where
  "job_at s i at =
     (if failed s = None \<and> i < length (jobs s) \<and> pc (jobs s ! i) = at
      then Some (objective (jobs s ! i)) else None)"

definition set_job :: "Session \<Rightarrow> nat \<Rightarrow> Job \<Rightarrow> Session" where
  "set_job s i j = s\<lparr>jobs := (jobs s)[i := j]\<rparr>"

definition do_run :: "Session \<Rightarrow> nat \<Rightarrow> Session option" where
  "do_run s i =
     (case job_at s i Spawned of
        None \<Rightarrow> None
      | Some ob \<Rightarrow> Some (set_job s i (run_objective ob)))"

definition do_stop_reply :: "Session \<Rightarrow> nat \<Rightarrow> string \<Rightarrow> Usage \<Rightarrow> Session option" where
  "do_stop_reply s i raw u =
     (case job_at s i AwaitStop of
        None \<Rightarrow> None
      | Some ob \<Rightarrow>
          (case non_empty_completion raw of
             Inl e \<Rightarrow> Some (abort (charge s u) e)
           | Inr res \<Rightarrow> Some (set_job (charge s u) i (resume_stop ob res))))"

definition do_tool_call :: "Session \<Rightarrow> nat \<Rightarrow> KnowledgeState \<Rightarrow> Session option" where
  "do_tool_call s i k =
     (case job_at s i AwaitStep of
        None \<Rightarrow> None
      | Some ob \<Rightarrow> Some (set_job s i \<lparr>objective = knowledge_tool ob k, pc = AwaitStep\<rparr>))"

definition do_step_reply ::
  "Session \<Rightarrow> nat \<Rightarrow> StepState option \<Rightarrow> Usage \<Rightarrow> Session option" where
  "do_step_reply s i raw u =
     (case job_at s i AwaitStep of
        None \<Rightarrow> None
      | Some ob \<Rightarrow>
          (case validated_StepState raw of
             Inl e \<Rightarrow> Some (abort (charge s u) e)
           | Inr st \<Rightarrow>
               (case resume_step ob st of
                  (narration, j) \<Rightarrow>
                    Some ((set_job (charge s u) i j)
                      \<lparr>thinking_queue := queue_put (thinking_queue s) narration\<rparr>))))"

definition do_wake :: "Session \<Rightarrow> Session option" where
  "do_wake s = (if failed s = None \<and> driver s = D_Sleep then Some (poll s) else None)"

definition do_detect_reply :: "Session \<Rightarrow> Task list \<Rightarrow> Usage \<Rightarrow> Session option" where
  "do_detect_reply s raw u =
     (if failed s = None \<and> driver s = D_Detect
      then (case validated_Res raw of
              Inl e \<Rightarrow> Some (abort (charge s u) e)
            | Inr tasks \<Rightarrow> Some (resume_detect (charge s u) tasks))
      else None)"

text \<open>Lines 265 to 275: the answer is put on the content queue and the usage returned.\<close>

definition do_answer_reply :: "Session \<Rightarrow> string \<Rightarrow> Usage \<Rightarrow> Session option" where
  "do_answer_reply s raw u =
     (case driver s of
        D_Answer context \<Rightarrow>
          (if failed s = None
           then (case non_empty_completion raw of
                   Inl e \<Rightarrow> Some (abort (charge s u) e)
                 | Inr res \<Rightarrow>
                     Some ((charge s u)
                       \<lparr>content_queue := queue_put (content_queue s) res,
                        driver := D_Returned\<rparr>))
           else None)
      | _ \<Rightarrow> None)"

text \<open>Lines 61 to 81: \<^verbatim>\<open>_consume_thinking\<close>, from the get to the put and from the put on.\<close>

definition do_thinking_get :: "Session \<Rightarrow> Session option" where
  "do_thinking_get s =
     (if thinking_task s = Getting
      then (case queue_get (thinking_queue s) of
              None \<Rightarrow> None
            | Some (x, q) \<Rightarrow> Some (s\<lparr>thinking_queue := q, thinking_task := Putting x\<rparr>))
      else None)"

definition do_thinking_put :: "Session \<Rightarrow> Session option" where
  "do_thinking_put s =
     (case thinking_task s of
        Putting x \<Rightarrow>
          Some (s\<lparr>completions := completions s @ [thinking_chunk x],
                  thinking_queue := task_done (thinking_queue s),
                  thinking_task := Getting\<rparr>)
      | _ \<Rightarrow> None)"

text \<open>Lines 39 to 59: \<^verbatim>\<open>_consume_content\<close>.\<close>

definition do_content_get :: "Session \<Rightarrow> Session option" where
  "do_content_get s =
     (if content_task s = Getting
      then (case queue_get (content_queue s) of
              None \<Rightarrow> None
            | Some (x, q) \<Rightarrow> Some (s\<lparr>content_queue := q, content_task := Putting x\<rparr>))
      else None)"

definition do_content_put :: "Session \<Rightarrow> Session option" where
  "do_content_put s =
     (case content_task s of
        Putting x \<Rightarrow>
          Some (s\<lparr>completions := completions s @ [content_chunk x],
                  content_queue := task_done (content_queue s),
                  content_task := Getting\<rparr>)
      | _ \<Rightarrow> None)"

text \<open>Line 97: \<^verbatim>\<open>_think\<close> has returned the usage; the two joins are awaited next.\<close>

definition do_think_done :: "Session \<Rightarrow> Session option" where
  "do_think_done s =
     (if failed s = None \<and> stream s = S_Think \<and> driver s = D_Returned
      then Some (s\<lparr>stream := S_Join (usage s)\<rparr>) else None)"

text \<open>
  Lines 100 to 124: both joins have returned; the consumers are cancelled and the last
  chunk is put.
\<close>

definition do_join_done :: "Session \<Rightarrow> Session option" where
  "do_join_done s =
     (case stream s of
        S_Join u \<Rightarrow>
          (if joined (content_queue s) \<and> joined (thinking_queue s)
           then Some (s\<lparr>content_task := Cancelled, thinking_task := Cancelled,
                        completions := completions s @ [end_chunk u], stream := S_End\<rparr>)
           else None)
      | _ \<Rightarrow> None)"

fun step :: "Session \<Rightarrow> action \<Rightarrow> Session option" where
  "step s (Run i) = do_run s i"
| "step s (StopReply i raw u) = do_stop_reply s i raw u"
| "step s (ToolCall i k) = do_tool_call s i k"
| "step s (StepReply i raw u) = do_step_reply s i raw u"
| "step s Wake = do_wake s"
| "step s (DetectReply raw u) = do_detect_reply s raw u"
| "step s (AnswerReply raw u) = do_answer_reply s raw u"
| "step s ThinkingGet = do_thinking_get s"
| "step s ThinkingPut = do_thinking_put s"
| "step s ContentGet = do_content_get s"
| "step s ContentPut = do_content_put s"
| "step s ThinkDone = do_think_done s"
| "step s JoinDone = do_join_done s"

text \<open>A run: the events applied in order; \<open>None\<close> when one of them cannot happen.\<close>

fun run :: "Session \<Rightarrow> action list \<Rightarrow> Session option" where
  "run s [] = Some s"
| "run s (a # as) = (case step s a of None \<Rightarrow> None | Some s' \<Rightarrow> run s' as)"

section \<open>Invariants\<close>

text \<open>What holds of a job at each control point of its runner.\<close>

definition job_ok :: "Job \<Rightarrow> bool" where
  "job_ok j =
     (length (steps (objective j)) \<le> MAX_STEPS \<and>
      (status (objective j) = COMPLETED) = truthy (answer (objective j)) \<and>
      (status (objective j) = COMPLETED) = (answer (objective j) \<noteq> None) \<and>
      (status (objective j) = FAILED \<longrightarrow> length (steps (objective j)) = MAX_STEPS) \<and>
      (case pc j of
         Spawned \<Rightarrow> status (objective j) = PENDING
       | AwaitStop \<Rightarrow>
           status (objective j) = IN_PROGRESS \<and> MIN_STEPS \<le> length (steps (objective j))
       | AwaitStep \<Rightarrow>
           status (objective j) = IN_PROGRESS \<and> length (steps (objective j)) < MAX_STEPS
       | Returned \<Rightarrow> status (objective j) = COMPLETED \<or> status (objective j) = FAILED))"

text \<open>What holds of the objectives and of the driver.\<close>

definition session_ok :: "Session \<Rightarrow> bool" where
  "session_ok s =
     (list_all job_ok (jobs s) \<and>
      length (jobs s) \<le> MAX_OBJECTIVES \<and>
      (driver s \<noteq> D_Sleep \<longrightarrow> active_count s = 0) \<and>
      (\<forall>context. driver s = D_Answer context \<longrightarrow> context = answers (objectives s)))"

text \<open>A chunk that carries neither usage nor a finish reason.\<close>

definition plain :: "Chunk \<Rightarrow> bool" where
  "plain c = (ch_usage c = None \<and> ch_finish_reason c = None)"

text \<open>
  A queue and its consumer: every item put and not acknowledged is either waiting in the
  queue or held by the consumer that is putting its chunk.
\<close>

definition consumer_ok :: "Queue \<Rightarrow> consumer_pc \<Rightarrow> bool" where
  "consumer_ok q t =
     (case t of
        Getting \<Rightarrow> unfinished q = length (items q)
      | Putting x \<Rightarrow> unfinished q = length (items q) + 1
      | Cancelled \<Rightarrow> unfinished q = 0 \<and> items q = [])"

definition stream_ok :: "Session \<Rightarrow> bool" where
  "stream_ok s =
     (consumer_ok (thinking_queue s) (thinking_task s) \<and>
      consumer_ok (content_queue s) (content_task s) \<and>
      (case stream s of
         S_Think \<Rightarrow>
           thinking_task s \<noteq> Cancelled \<and> content_task s \<noteq> Cancelled \<and>
           list_all plain (completions s)
       | S_Join u \<Rightarrow>
           thinking_task s \<noteq> Cancelled \<and> content_task s \<noteq> Cancelled \<and>
           list_all plain (completions s) \<and> driver s = D_Returned \<and> u = usage s
       | S_End \<Rightarrow>
           thinking_task s = Cancelled \<and> content_task s = Cancelled \<and>
           driver s = D_Returned \<and> completions s \<noteq> [] \<and>
           list_all plain (butlast (completions s)) \<and>
           last (completions s) = end_chunk (usage s)))"

definition inv :: "Session \<Rightarrow> bool" where
  "inv s = (session_ok s \<and> stream_ok s)"

section \<open>Example runs\<close>

definition example_step :: StepState where
  "example_step = \<lparr>st_short_name = ''look'', st_body = ''found''\<rparr>"

definition example_usage :: Usage where
  "example_usage = \<lparr>prompt_tokens = 7, completion_tokens = 2\<rparr>"

definition example_task :: "string \<Rightarrow> Task" where
  "example_task name =
     \<lparr>t_completion_criteria = ''sourced'', t_description = ''find '' @ name, t_short_name = name\<rparr>"

text \<open>The root objective takes three steps and its stop-check then answers.\<close>

definition root_completes :: "action list" where
  "root_completes =
     [Run 0, StepReply 0 (Some example_step) example_usage,
      StepReply 0 (Some example_step) example_usage,
      StepReply 0 (Some example_step) example_usage,
      StopReply 0 ''Paris.'' example_usage]"

text \<open>The root objective takes five steps and its stop-check declines three times.\<close>

definition root_fails :: "action list" where
  "root_fails =
     [Run 0, StepReply 0 (Some example_step) example_usage,
      StepReply 0 (Some example_step) example_usage,
      StepReply 0 (Some example_step) example_usage,
      StopReply 0 ''Can't answer'' example_usage,
      StepReply 0 (Some example_step) example_usage,
      StopReply 0 ''Can't answer'' example_usage,
      StepReply 0 (Some example_step) example_usage,
      StopReply 0 ''Can't answer'' example_usage]"

text \<open>The root objective completes and the detector then proposes three objectives.\<close>

definition three_proposals :: "action list" where
  "three_proposals =
     root_completes @
     [Wake, DetectReply [example_task ''a'', example_task ''b'', example_task ''c'']
              example_usage]"

text \<open>A rendering of the status, for the examples.\<close>

definition example_render :: "ObjectiveStatus \<Rightarrow> string" where
  "example_render st =
     (case st of PENDING \<Rightarrow> ''pending'' | IN_PROGRESS \<Rightarrow> ''in_progress''
      | COMPLETED \<Rightarrow> ''completed'' | FAILED \<Rightarrow> ''failed'')"


section \<open>Properties of the stop-check\<close>

lemma contains_iff_sublist: "contains needle hay = sublist needle hay"
  by (induction hay) (simp_all add: sublist_Cons_right)

lemma lower_append: "lower (xs @ ys) = lower xs @ lower ys"
  by (simp add: lower_def)

lemma lower_sentinel: "lower sentinel = sentinel"
  by (simp add: lower_def lower_char_def sentinel_def)

text \<open>
  C1. Whatever text the stop-check's completion returns, the check declines exactly when
  the lowercased text has "can't answer" as a substring. When it declines, the runner
  leaves the answer as it was and the status as it was or FAILED, so the objective is not
  completed by this check; otherwise the runner completes the objective with the whole
  text, unchanged, as its answer. A text that embeds the sentinel (in any letter case)
  between any other content is declined.
\<close>

theorem stop_check_sentinel_policy:
  "((should_stop_objective res = None) =
      (\<exists>before after. lower res = before @ ''can't answer'' @ after)) \<and>
   (should_stop_objective res = None \<longrightarrow>
      answer (objective (resume_stop ob res)) = answer ob \<and>
      status (objective (resume_stop ob res)) \<in> {status ob, FAILED}) \<and>
   (should_stop_objective res \<noteq> None \<longrightarrow>
      resume_stop ob res =
        \<lparr>objective = ob\<lparr>status := COMPLETED, answer := Some res\<rparr>, pc = Returned\<rparr>) \<and>
   (lower mark = ''can't answer'' \<longrightarrow>
      should_stop_objective (real_answer @ mark @ rest) = None)"
proof -
  have "(should_stop_objective res = None) =
     (\<exists>before after. lower res = before @ ''can't answer'' @ after)"
    by (simp add: should_stop_objective_def contains_iff_sublist sublist_def sentinel_def)
  moreover have "should_stop_objective res = None \<longrightarrow>
      answer (objective (resume_stop ob res)) = answer ob \<and>
      status (objective (resume_stop ob res)) \<in> {status ob, FAILED}"
    by (simp add: resume_stop_def check_max_steps_def)
  moreover have "should_stop_objective res \<noteq> None \<longrightarrow>
      resume_stop ob res =
        \<lparr>objective = ob\<lparr>status := COMPLETED, answer := Some res\<rparr>, pc = Returned\<rparr>"
    by (auto simp: resume_stop_def should_stop_objective_def split: if_splits)
  moreover have "lower mark = ''can't answer'' \<longrightarrow>
      should_stop_objective (real_answer @ mark @ rest) = None"
    by (auto simp: should_stop_objective_def contains_iff_sublist sublist_def sentinel_def
        lower_append)
  ultimately show ?thesis by blast
qed

theorem stop_check_sentinel_policy_witness:
  "should_stop_objective ''Paris, or I Can't Answer!'' = None \<and>
   should_stop_objective ''Paris.'' = Some ''Paris.'' \<and>
   lower ''Can't Answer'' = ''can't answer''"
  using stop_check_sentinel_policy
    [of "''Paris.''" _ "''Can't Answer''"
        "''Paris, or I ''" "''!''"]
  by (simp add: should_stop_objective_def sentinel_def lower_def lower_char_def)

section \<open>Runs preserve the invariants\<close>


lemma run_invariant:
  assumes "run s0 as = Some s" and "P s0"
    and "\<And>s a s'. P s \<Longrightarrow> step s a = Some s' \<Longrightarrow> P s'"
  shows "P s"
  using assms(1,2)
proof (induction as arbitrary: s0)
  case Nil
  then show ?case by simp
next
  case (Cons a as)
  then show ?case using assms(3) by (auto split: option.splits)
qed

lemma job_ok_check_max_steps:
  "status ob = IN_PROGRESS \<Longrightarrow> length (steps ob) \<le> MAX_STEPS \<Longrightarrow> answer ob = None \<Longrightarrow>
   job_ok (check_max_steps ob)"
  by (auto simp: job_ok_def check_max_steps_def truthy_def)

lemma job_ok_loop_head:
  "status ob = IN_PROGRESS \<Longrightarrow> length (steps ob) \<le> MAX_STEPS \<Longrightarrow> answer ob = None \<Longrightarrow>
   job_ok (loop_head ob)"
  by (auto simp: job_ok_def loop_head_def check_max_steps_def truthy_def)

lemma job_ok_run_objective:
  "job_ok \<lparr>objective = ob, pc = Spawned\<rparr> \<Longrightarrow> job_ok (run_objective ob)"
  unfolding run_objective_def
  by (rule job_ok_loop_head) (auto simp: job_ok_def)

lemma job_ok_resume_stop:
  "job_ok \<lparr>objective = ob, pc = AwaitStop\<rparr> \<Longrightarrow> res \<noteq> [] \<Longrightarrow> job_ok (resume_stop ob res)"
  by (auto simp: job_ok_def resume_stop_def check_max_steps_def truthy_def
      should_stop_objective_def split: option.splits if_splits)

lemma job_ok_knowledge_tool:
  "job_ok \<lparr>objective = ob, pc = AwaitStep\<rparr> \<Longrightarrow>
   job_ok \<lparr>objective = knowledge_tool ob k, pc = AwaitStep\<rparr>"
  by (auto simp: job_ok_def knowledge_tool_def)

lemma job_ok_resume_step:
  "job_ok \<lparr>objective = ob, pc = AwaitStep\<rparr> \<Longrightarrow> job_ok (snd (resume_step ob st))"
  unfolding resume_step_def snd_conv
  by (rule job_ok_loop_head) (auto simp: job_ok_def)


lemma admit_take:
  "admit obs new ps =
     (obs @ take (MAX_OBJECTIVES - length obs) ps, new @ take (MAX_OBJECTIVES - length obs) ps)"
proof (induction ps arbitrary: obs new)
  case Nil
  then show ?case by simp
next
  case (Cons p ps)
  show ?case
  proof (cases "length obs \<ge> MAX_OBJECTIVES")
    case True
    then show ?thesis by simp
  next
    case False
    then obtain k where k: "MAX_OBJECTIVES - length obs = Suc k"
      by (cases "MAX_OBJECTIVES - length obs") auto
    then have "MAX_OBJECTIVES - length (obs @ [p]) = k" by simp
    with False k Cons.IH [of "obs @ [p]" "new @ [p]"] show ?thesis by simp
  qed
qed

lemma job_atD:
  "job_at s i at = Some ob \<Longrightarrow>
   failed s = None \<and> i < length (jobs s) \<and> jobs s ! i = \<lparr>objective = ob, pc = at\<rparr>"
  by (auto simp: job_at_def split: if_splits)

lemma active_count_zero: "(active_count s = 0) = (\<forall>j \<in> set (jobs s). pc j = Returned)"
  by (auto simp: active_count_def filter_empty_conv)

lemma job_at_active:
  assumes "job_at s i at = Some ob" and "at \<noteq> Returned"
  shows "active_count s \<noteq> 0"
proof -
  from assms(1) have "i < length (jobs s)" and "pc (jobs s ! i) = at"
    by (auto dest: job_atD)
  then have "jobs s ! i \<in> set (jobs s)" by simp
  with \<open>pc (jobs s ! i) = at\<close> assms(2) show ?thesis
    unfolding active_count_zero by metis
qed

lemma job_at_driver:
  "session_ok s \<Longrightarrow> job_at s i at = Some ob \<Longrightarrow> at \<noteq> Returned \<Longrightarrow> driver s = D_Sleep"
  using job_at_active unfolding session_ok_def by blast

lemma job_at_ok:
  "session_ok s \<Longrightarrow> job_at s i at = Some ob \<Longrightarrow> job_ok \<lparr>objective = ob, pc = at\<rparr>"
  by (metis job_atD list_all_length session_ok_def)

lemma list_all_update: "list_all P xs \<Longrightarrow> P y \<Longrightarrow> list_all P (xs[i := y])"
  by (induction xs arbitrary: i) (auto split: nat.splits)

lemma session_ok_set_job:
  assumes "session_ok s" and "job_at s i at = Some ob" and "at \<noteq> Returned" and "job_ok j"
  shows "session_ok (set_job s i j)"
proof -
  have "driver s = D_Sleep" using assms(1-3) by (rule job_at_driver)
  moreover have "list_all job_ok ((jobs s)[i := j])"
    using assms(1,4) by (simp add: session_ok_def list_all_update)
  ultimately show ?thesis using assms(1) by (simp add: session_ok_def set_job_def)
qed

lemma session_ok_charge [simp]: "session_ok (charge s u) = session_ok s"
  by (simp add: session_ok_def charge_def active_count_def objectives_def)

lemma session_ok_abort [simp]: "session_ok (abort s e) = session_ok s"
  by (simp add: session_ok_def abort_def active_count_def objectives_def)

lemma job_at_charge [simp]: "job_at (charge s u) i at = job_at s i at"
  by (simp add: job_at_def charge_def)

lemma session_ok_do_run: "session_ok s \<Longrightarrow> do_run s i = Some s' \<Longrightarrow> session_ok s'"
  by (auto simp: do_run_def split: option.splits
      intro!: session_ok_set_job job_ok_run_objective dest: job_at_ok)

lemma session_ok_do_stop_reply:
  "session_ok s \<Longrightarrow> do_stop_reply s i raw u = Some s' \<Longrightarrow> session_ok s'"
  by (auto simp: do_stop_reply_def non_empty_completion_def split: option.splits if_splits
      intro!: session_ok_set_job [where at = AwaitStop] job_ok_resume_stop dest: job_at_ok)

lemma session_ok_do_tool_call:
  "session_ok s \<Longrightarrow> do_tool_call s i k = Some s' \<Longrightarrow> session_ok s'"
  by (auto simp: do_tool_call_def split: option.splits
      intro!: session_ok_set_job [where at = AwaitStep] job_ok_knowledge_tool dest: job_at_ok)


lemma session_ok_thinking_queue [simp]:
  "session_ok (s\<lparr>thinking_queue := q\<rparr>) = session_ok s"
  by (simp add: session_ok_def active_count_def objectives_def)

lemma session_ok_do_step_reply:
  assumes "session_ok s" and "do_step_reply s i raw u = Some s'"
  shows "session_ok s'"
proof -
  from assms(2) obtain ob where ob: "job_at s i AwaitStep = Some ob"
    by (auto simp: do_step_reply_def split: option.splits)
  show ?thesis
  proof (cases raw)
    case None
    with assms ob show ?thesis
      by (auto simp: do_step_reply_def validated_StepState_def)
  next
    case (Some st)
    have "job_ok (snd (resume_step ob st))"
      using assms(1) ob by (intro job_ok_resume_step job_at_ok)
    then have "session_ok (set_job s i (snd (resume_step ob st)))"
      using assms(1) ob by (intro session_ok_set_job [where at = AwaitStep]) auto
    then have "session_ok (set_job (charge s u) i (snd (resume_step ob st)))"
      by (simp add: session_ok_def set_job_def charge_def active_count_def objectives_def)
    with assms(2) ob Some show ?thesis
      by (auto simp: do_step_reply_def validated_StepState_def split: prod.splits)
  qed
qed

lemma session_ok_poll:
  "list_all job_ok (jobs s) \<Longrightarrow> length (jobs s) \<le> MAX_OBJECTIVES \<Longrightarrow> session_ok (poll s)"
  by (simp add: session_ok_def poll_def active_count_def objectives_def)

lemma session_ok_answer_user:
  "list_all job_ok (jobs s) \<Longrightarrow> length (jobs s) \<le> MAX_OBJECTIVES \<Longrightarrow> active_count s = 0 \<Longrightarrow>
   session_ok (answer_user s)"
  by (simp add: session_ok_def answer_user_def active_count_def objectives_def)

lemma pending_active:
  assumes "list_all job_ok (jobs s)"
    and "\<not> list_ex (\<lambda>ob. status ob = IN_PROGRESS \<or> status ob = PENDING) (objectives s)"
  shows "active_count s = 0"
  unfolding active_count_zero
proof
  fix j assume j: "j \<in> set (jobs s)"
  with assms(1) have "job_ok j" by (simp add: list_all_iff)
  moreover from assms(2) j have "status (objective j) \<noteq> IN_PROGRESS"
    and "status (objective j) \<noteq> PENDING"
    by (auto simp: list_ex_iff objectives_def)
  ultimately show "pc j = Returned"
    by (cases "pc j") (auto simp: job_ok_def)
qed

lemma session_ok_outer_loop:
  "list_all job_ok (jobs s) \<Longrightarrow> length (jobs s) \<le> MAX_OBJECTIVES \<Longrightarrow> session_ok (outer_loop s)"
  unfolding outer_loop_def
  by (auto intro: session_ok_poll session_ok_answer_user pending_active)

lemma session_ok_do_wake: "session_ok s \<Longrightarrow> do_wake s = Some s' \<Longrightarrow> session_ok s'"
  by (auto simp: do_wake_def session_ok_def [of s] split: if_splits intro!: session_ok_poll)

lemma job_ok_spawn_new:
  "job_ok (spawn (new_ObjectiveState criteria descr kns name))"
  by (simp add: job_ok_def spawn_def new_ObjectiveState_def truthy_def)

lemma admitted_from_detector:
  "ob \<in> set (snd (admit obs [] (detect_new_objectives tasks))) \<Longrightarrow>
   \<exists>t \<in> set tasks.
     ob = new_ObjectiveState (t_completion_criteria t) (t_description t) [] (t_short_name t)"
  by (auto simp: admit_take detect_new_objectives_def dest!: in_set_takeD)

lemma length_admitted:
  "length obs + length (snd (admit obs [] ps)) \<le> max (length obs) MAX_OBJECTIVES"
  by (simp add: admit_take)

lemma session_ok_resume_detect:
  assumes "list_all job_ok (jobs s)" and "length (jobs s) \<le> MAX_OBJECTIVES"
    and "active_count s = 0"
  shows "session_ok (resume_detect s tasks)"
proof -
  define new where "new = snd (admit (objectives s) [] (detect_new_objectives tasks))"
  show ?thesis
  proof (cases "new = []")
    case True
    with assms show ?thesis
      by (simp add: resume_detect_def new_def [symmetric] session_ok_answer_user)
  next
    case False
    have "list_all job_ok (map spawn new)"
      unfolding list_all_iff new_def
      by (auto dest!: admitted_from_detector simp: job_ok_spawn_new)
    moreover have "length (jobs s) + length new \<le> MAX_OBJECTIVES"
      using length_admitted [of "objectives s" "detect_new_objectives tasks"] assms(2)
      by (simp add: new_def objectives_def)
    ultimately have "session_ok (outer_loop (s\<lparr>jobs := jobs s @ map spawn new\<rparr>))"
      using assms(1) by (intro session_ok_outer_loop) simp_all
    with False show ?thesis
      by (simp add: resume_detect_def new_def [symmetric])
  qed
qed

lemma session_ok_do_detect_reply:
  assumes "session_ok s" and "do_detect_reply s raw u = Some s'"
  shows "session_ok s'"
proof -
  from assms have d: "driver s = D_Detect" and a: "active_count s = 0"
    by (auto simp: do_detect_reply_def session_ok_def split: if_splits)
  have c: "list_all job_ok (jobs (charge s u))" "length (jobs (charge s u)) \<le> MAX_OBJECTIVES"
    "active_count (charge s u) = 0"
    using assms(1) a by (simp_all add: session_ok_def charge_def active_count_def)
  show ?thesis
  proof (cases "validated_Res raw")
    case (Inl e)
    with assms d show ?thesis by (auto simp: do_detect_reply_def split: if_splits)
  next
    case (Inr tasks)
    with assms d have "s' = resume_detect (charge s u) tasks"
      by (auto simp: do_detect_reply_def split: if_splits)
    with c show ?thesis by (simp add: session_ok_resume_detect)
  qed
qed

lemma session_ok_do_answer_reply:
  assumes "session_ok s" and "do_answer_reply s raw u = Some s'"
  shows "session_ok s'"
proof -
  from assms(2) obtain ctx where d: "driver s = D_Answer ctx"
    by (auto simp: do_answer_reply_def split: driver_pc.splits)
  with assms(1) have a: "active_count s = 0" by (simp add: session_ok_def)
  show ?thesis
  proof (cases "raw = []")
    case True
    with assms d show ?thesis
      by (auto simp: do_answer_reply_def non_empty_completion_def split: if_splits)
  next
    case False
    with assms(2) d have "s' = (charge s u)
        \<lparr>content_queue := queue_put (content_queue s) raw, driver := D_Returned\<rparr>"
      by (auto simp: do_answer_reply_def non_empty_completion_def split: if_splits)
    with assms(1) a show ?thesis
      by (simp add: session_ok_def charge_def active_count_def)
  qed
qed

lemma session_ok_frame:
  "jobs s' = jobs s \<Longrightarrow> driver s' = driver s \<Longrightarrow> session_ok s \<Longrightarrow> session_ok s'"
  by (simp add: session_ok_def active_count_def objectives_def)

lemma do_thinking_get_frame:
  "do_thinking_get s = Some s' \<Longrightarrow> jobs s' = jobs s \<and> driver s' = driver s \<and>
     usage s' = usage s \<and> failed s' = failed s"
  by (auto simp: do_thinking_get_def split: if_splits option.splits)

lemma do_thinking_put_frame:
  "do_thinking_put s = Some s' \<Longrightarrow> jobs s' = jobs s \<and> driver s' = driver s \<and>
     usage s' = usage s \<and> failed s' = failed s"
  by (auto simp: do_thinking_put_def split: consumer_pc.splits)

lemma do_content_get_frame:
  "do_content_get s = Some s' \<Longrightarrow> jobs s' = jobs s \<and> driver s' = driver s \<and>
     usage s' = usage s \<and> failed s' = failed s"
  by (auto simp: do_content_get_def split: if_splits option.splits)

lemma do_content_put_frame:
  "do_content_put s = Some s' \<Longrightarrow> jobs s' = jobs s \<and> driver s' = driver s \<and>
     usage s' = usage s \<and> failed s' = failed s"
  by (auto simp: do_content_put_def split: consumer_pc.splits)

lemma do_think_done_frame:
  "do_think_done s = Some s' \<Longrightarrow> jobs s' = jobs s \<and> driver s' = driver s \<and>
     usage s' = usage s \<and> failed s' = failed s"
  by (auto simp: do_think_done_def split: if_splits)

lemma do_join_done_frame:
  "do_join_done s = Some s' \<Longrightarrow> jobs s' = jobs s \<and> driver s' = driver s \<and>
     usage s' = usage s \<and> failed s' = failed s"
  by (auto simp: do_join_done_def split: stream_pc.splits if_splits)

lemmas consumer_frames = do_thinking_get_frame do_thinking_put_frame do_content_get_frame
  do_content_put_frame do_think_done_frame do_join_done_frame

lemma session_ok_step: "session_ok s \<Longrightarrow> step s a = Some s' \<Longrightarrow> session_ok s'"
proof (cases a)
qed (auto intro: session_ok_do_run session_ok_do_stop_reply session_ok_do_tool_call
      session_ok_do_step_reply session_ok_do_wake session_ok_do_detect_reply
      session_ok_do_answer_reply
      dest!: consumer_frames intro: session_ok_frame)
lemma session_ok_think_stream: "session_ok (think_stream question)"
  unfolding think_stream_def
  by (rule session_ok_outer_loop)
    (simp_all add: root_objective_def job_ok_spawn_new MAX_OBJECTIVES_def)


lemma stream_think:
  "stream_ok s \<Longrightarrow> driver s \<noteq> D_Returned \<Longrightarrow> stream s = S_Think"
  by (cases "stream s") (auto simp: stream_ok_def)

lemma stream_ok_thinkI:
  assumes "stream_ok s" and "stream s = S_Think" and "stream s' = S_Think"
    and "completions s' = completions s"
    and "thinking_task s' = thinking_task s" and "content_task s' = content_task s"
    and "consumer_ok (thinking_queue s') (thinking_task s)"
    and "consumer_ok (content_queue s') (content_task s)"
  shows "stream_ok s'"
  using assms by (simp add: stream_ok_def)

lemma consumer_ok_put:
  "consumer_ok q t \<Longrightarrow> t \<noteq> Cancelled \<Longrightarrow> consumer_ok (queue_put q x) t"
  by (cases t) (auto simp: consumer_ok_def queue_put_def)

lemma stream_ok_queues:
  "stream_ok s \<Longrightarrow> consumer_ok (thinking_queue s) (thinking_task s)"
  "stream_ok s \<Longrightarrow> consumer_ok (content_queue s) (content_task s)"
  "stream_ok s \<Longrightarrow> stream s = S_Think \<Longrightarrow> thinking_task s \<noteq> Cancelled"
  "stream_ok s \<Longrightarrow> stream s = S_Think \<Longrightarrow> content_task s \<noteq> Cancelled"
  by (auto simp: stream_ok_def)

lemma stream_ok_set_job [simp]: "stream_ok (set_job s i j) = stream_ok s"
  by (simp add: stream_ok_def set_job_def cong: stream_pc.case_cong)

lemma stream_ok_do_run: "stream_ok s \<Longrightarrow> do_run s i = Some s' \<Longrightarrow> stream_ok s'"
  by (auto simp: do_run_def split: option.splits)

lemma stream_ok_do_tool_call: "stream_ok s \<Longrightarrow> do_tool_call s i k = Some s' \<Longrightarrow> stream_ok s'"
  by (auto simp: do_tool_call_def split: option.splits)

lemma stream_ok_do_stop_reply:
  assumes "session_ok s" and "stream_ok s" and "do_stop_reply s i raw u = Some s'"
  shows "stream_ok s'"
proof -
  from assms(3) obtain ob where ob: "job_at s i AwaitStop = Some ob"
    by (auto simp: do_stop_reply_def split: option.splits)
  with assms(1) have "driver s = D_Sleep" by (auto dest: job_at_driver)
  with assms(2) have t: "stream s = S_Think" by (simp add: stream_think)
  show ?thesis
  proof (rule stream_ok_thinkI [OF assms(2) t])
  qed (use assms(2,3) ob t in \<open>auto simp: do_stop_reply_def set_job_def charge_def abort_def
        stream_ok_queues split: sum.splits\<close>)
qed

lemma stream_ok_do_step_reply:
  assumes "session_ok s" and "stream_ok s" and "do_step_reply s i raw u = Some s'"
  shows "stream_ok s'"
proof -
  from assms(3) obtain ob where ob: "job_at s i AwaitStep = Some ob"
    by (auto simp: do_step_reply_def split: option.splits)
  with assms(1) have "driver s = D_Sleep" by (auto dest: job_at_driver)
  with assms(2) have t: "stream s = S_Think" by (simp add: stream_think)
  show ?thesis
  proof (rule stream_ok_thinkI [OF assms(2) t])
  qed (use assms(2,3) ob t in \<open>auto simp: do_step_reply_def set_job_def charge_def abort_def
        stream_ok_queues consumer_ok_put split: sum.splits prod.splits\<close>)
qed

lemma stream_ok_do_wake:
  assumes "stream_ok s" and "do_wake s = Some s'"
  shows "stream_ok s'"
proof -
  from assms(2) have "driver s = D_Sleep" by (auto simp: do_wake_def split: if_splits)
  with assms(1) have t: "stream s = S_Think" by (simp add: stream_think)
  show ?thesis
  proof (rule stream_ok_thinkI [OF assms(1) t])
  qed (use assms t in \<open>auto simp: do_wake_def poll_def stream_ok_queues split: if_splits\<close>)
qed

lemma outer_loop_frame:
  "stream (outer_loop s) = stream s \<and> completions (outer_loop s) = completions s \<and>
   thinking_task (outer_loop s) = thinking_task s \<and> content_task (outer_loop s) = content_task s \<and>
   thinking_queue (outer_loop s) = thinking_queue s \<and> content_queue (outer_loop s) = content_queue s \<and>
   usage (outer_loop s) = usage s \<and> failed (outer_loop s) = failed s \<and>
   jobs (outer_loop s) = jobs s"
  by (simp add: outer_loop_def poll_def answer_user_def)

lemma resume_detect_frame:
  "stream (resume_detect s tasks) = stream s \<and>
   completions (resume_detect s tasks) = completions s \<and>
   thinking_task (resume_detect s tasks) = thinking_task s \<and>
   content_task (resume_detect s tasks) = content_task s \<and>
   thinking_queue (resume_detect s tasks) = thinking_queue s \<and>
   content_queue (resume_detect s tasks) = content_queue s \<and>
   usage (resume_detect s tasks) = usage s \<and> failed (resume_detect s tasks) = failed s"
  by (simp add: resume_detect_def Let_def outer_loop_frame answer_user_def)

lemma stream_ok_do_detect_reply:
  assumes "stream_ok s" and "do_detect_reply s raw u = Some s'"
  shows "stream_ok s'"
proof -
  from assms(2) have "driver s = D_Detect" by (auto simp: do_detect_reply_def split: if_splits)
  with assms(1) have t: "stream s = S_Think" by (simp add: stream_think)
  show ?thesis
  proof (rule stream_ok_thinkI [OF assms(1) t])
  qed (use assms t in \<open>auto simp: do_detect_reply_def resume_detect_frame charge_def abort_def
        stream_ok_queues split: if_splits sum.splits\<close>)
qed

lemma stream_ok_do_answer_reply:
  assumes "stream_ok s" and "do_answer_reply s raw u = Some s'"
  shows "stream_ok s'"
proof -
  from assms(2) obtain ctx where "driver s = D_Answer ctx"
    by (auto simp: do_answer_reply_def split: driver_pc.splits)
  with assms(1) have t: "stream s = S_Think" by (simp add: stream_think)
  show ?thesis
  proof (rule stream_ok_thinkI [OF assms(1) t])
  qed (use assms t in \<open>auto simp: do_answer_reply_def charge_def abort_def
        stream_ok_queues consumer_ok_put split: if_splits sum.splits driver_pc.splits\<close>)
qed


lemma plain_chunks [simp]: "plain (thinking_chunk x)" "plain (content_chunk x)"
  by (simp_all add: plain_def thinking_chunk_def content_chunk_def)

lemma stream_ok_do_thinking_get:
  assumes "stream_ok s" and "do_thinking_get s = Some s'"
  shows "stream_ok s'"
proof -
  from assms(2) obtain x xs where g: "thinking_task s = Getting"
    and i: "items (thinking_queue s) = x # xs"
    and s': "s' = s\<lparr>thinking_queue := (thinking_queue s)\<lparr>items := xs\<rparr>,
                    thinking_task := Putting x\<rparr>"
    by (auto simp: do_thinking_get_def queue_get_def split: if_splits list.splits)
  from assms(1) g i show ?thesis
    unfolding s' by (cases "stream s") (auto simp: stream_ok_def consumer_ok_def)
qed

lemma stream_ok_do_content_get:
  assumes "stream_ok s" and "do_content_get s = Some s'"
  shows "stream_ok s'"
proof -
  from assms(2) obtain x xs where g: "content_task s = Getting"
    and i: "items (content_queue s) = x # xs"
    and s': "s' = s\<lparr>content_queue := (content_queue s)\<lparr>items := xs\<rparr>,
                    content_task := Putting x\<rparr>"
    by (auto simp: do_content_get_def queue_get_def split: if_splits list.splits)
  from assms(1) g i show ?thesis
    unfolding s' by (cases "stream s") (auto simp: stream_ok_def consumer_ok_def)
qed

lemma stream_ok_do_thinking_put:
  assumes "stream_ok s" and "do_thinking_put s = Some s'"
  shows "stream_ok s'"
proof -
  from assms(2) obtain x where g: "thinking_task s = Putting x"
    and s': "s' = s\<lparr>completions := completions s @ [thinking_chunk x],
                    thinking_queue := task_done (thinking_queue s),
                    thinking_task := Getting\<rparr>"
    by (auto simp: do_thinking_put_def split: consumer_pc.splits)
  from assms(1) g show ?thesis
    unfolding s' by (cases "stream s") (auto simp: stream_ok_def consumer_ok_def task_done_def)
qed

lemma stream_ok_do_content_put:
  assumes "stream_ok s" and "do_content_put s = Some s'"
  shows "stream_ok s'"
proof -
  from assms(2) obtain x where g: "content_task s = Putting x"
    and s': "s' = s\<lparr>completions := completions s @ [content_chunk x],
                    content_queue := task_done (content_queue s),
                    content_task := Getting\<rparr>"
    by (auto simp: do_content_put_def split: consumer_pc.splits)
  from assms(1) g show ?thesis
    unfolding s' by (cases "stream s") (auto simp: stream_ok_def consumer_ok_def task_done_def)
qed

lemma stream_ok_do_think_done:
  "stream_ok s \<Longrightarrow> do_think_done s = Some s' \<Longrightarrow> stream_ok s'"
  by (auto simp: do_think_done_def stream_ok_def split: if_splits)

lemma consumer_ok_joined:
  "consumer_ok q t \<Longrightarrow> joined q \<Longrightarrow> t \<noteq> Cancelled \<Longrightarrow> t = Getting \<and> items q = []"
  by (cases t) (auto simp: consumer_ok_def joined_def)

lemma stream_ok_do_join_done:
  assumes "stream_ok s" and "do_join_done s = Some s'"
  shows "stream_ok s'"
proof -
  from assms(2) obtain u where j: "stream s = S_Join u"
    and c: "joined (content_queue s)" and t: "joined (thinking_queue s)"
    and s': "s' = s\<lparr>content_task := Cancelled, thinking_task := Cancelled,
                    completions := completions s @ [end_chunk u], stream := S_End\<rparr>"
    by (auto simp: do_join_done_def split: stream_pc.splits if_splits)
  from assms(1) j have "items (content_queue s) = []" "items (thinking_queue s) = []"
    using consumer_ok_joined [OF _ c] consumer_ok_joined [OF _ t]
    by (auto simp: stream_ok_def)
  with assms(1) j c t show ?thesis
    unfolding s' by (auto simp: stream_ok_def consumer_ok_def joined_def)
qed

lemma stream_ok_step:
  assumes "session_ok s" and "stream_ok s" and "step s a = Some s'"
  shows "stream_ok s'"
  using assms
  by (cases a)
    (auto intro: stream_ok_do_run stream_ok_do_stop_reply stream_ok_do_tool_call
      stream_ok_do_step_reply stream_ok_do_wake stream_ok_do_detect_reply
      stream_ok_do_answer_reply stream_ok_do_thinking_get stream_ok_do_thinking_put
      stream_ok_do_content_get stream_ok_do_content_put stream_ok_do_think_done
      stream_ok_do_join_done)

lemma inv_step: "inv s \<Longrightarrow> step s a = Some s' \<Longrightarrow> inv s'"
  unfolding inv_def by (blast intro: session_ok_step stream_ok_step)

lemma stream_ok_think_stream: "stream_ok (think_stream question)"
  by (simp add: think_stream_def outer_loop_def poll_def answer_user_def stream_ok_def
      consumer_ok_def empty_queue_def)

lemma inv_run: "run (think_stream question) as = Some s \<Longrightarrow> inv s"
proof (erule run_invariant)
  show "inv (think_stream question)"
    by (simp add: inv_def session_ok_think_stream stream_ok_think_stream)
qed (rule inv_step)

section \<open>Bounds, admission and the guard of the stop-check\<close>

lemmas run_eval = three_proposals_def str_opt_def truthy_def digest_def example_render_def
  think_stream_def outer_loop_def poll_def answer_user_def objectives_def active_count_def
  root_objective_def new_ObjectiveState_def spawn_def empty_queue_def
  do_run_def do_stop_reply_def do_tool_call_def do_step_reply_def do_wake_def do_detect_reply_def
  do_answer_reply_def do_thinking_get_def do_thinking_put_def do_content_get_def do_content_put_def
  do_think_done_def do_join_done_def job_at_def set_job_def charge_def abort_def
  run_objective_def loop_head_def check_max_steps_def resume_stop_def resume_step_def
  knowledge_tool_def non_empty_completion_def validated_StepState_def validated_Res_def
  should_stop_objective_def sentinel_def lower_def lower_char_def
  MIN_STEPS_def MAX_STEPS_def MAX_OBJECTIVES_def add_usage_def queue_put_def queue_get_def
  task_done_def joined_def resume_detect_def detect_new_objectives_def answers_def
  example_step_def example_usage_def example_task_def root_completes_def root_fails_def

lemma run_jobs_ok: "run (think_stream question) as = Some s \<Longrightarrow> j \<in> set (jobs s) \<Longrightarrow> job_ok j"
  by (drule inv_run) (simp add: inv_def session_ok_def list_all_iff)




text \<open>
  C5. In every state of a session, a runner that is waiting for the stop-check's reply
  owns an objective with at least three steps. At the head of the loop, an objective in
  progress with fewer than three steps goes to the creation of a step, without a
  stop-check, and the step that comes back is appended.
\<close>

theorem stop_check_only_from_min_steps:
  "(run (think_stream question) as = Some s \<longrightarrow>
      (\<forall>j \<in> set (jobs s). pc j = AwaitStop \<longrightarrow> MIN_STEPS \<le> length (steps (objective j)))) \<and>
   (status ob = IN_PROGRESS \<and> length (steps ob) < MIN_STEPS \<longrightarrow>
      loop_head ob = \<lparr>objective = ob, pc = AwaitStep\<rparr> \<and>
      steps (objective (snd (resume_step ob st))) = steps ob @ [st])"
proof -
  have "MIN_STEPS \<le> length (steps (objective j))"
    if "run (think_stream question) as = Some s" and "j \<in> set (jobs s)" and "pc j = AwaitStop"
    for j
    using run_jobs_ok [OF that(1,2)] that(3) by (simp add: job_ok_def)
  moreover have "status ob = IN_PROGRESS \<and> length (steps ob) < MIN_STEPS \<longrightarrow>
      loop_head ob = \<lparr>objective = ob, pc = AwaitStep\<rparr> \<and>
      steps (objective (snd (resume_step ob st))) = steps ob @ [st]"
    by (simp add: loop_head_def check_max_steps_def resume_step_def MIN_STEPS_def MAX_STEPS_def)
  ultimately show ?thesis by blast
qed

theorem stop_check_only_from_min_steps_witness:
  "\<exists>s. run (think_stream ''q'') (butlast root_completes) = Some s \<and>
        map pc (jobs s) = [AwaitStop] \<and>
        MIN_STEPS \<le> length (steps (objective (jobs s ! 0))) \<and>
        loop_head (root_objective ''q''\<lparr>status := IN_PROGRESS\<rparr>) =
          \<lparr>objective = root_objective ''q''\<lparr>status := IN_PROGRESS\<rparr>, pc = AwaitStep\<rparr>"
proof -
  have "\<exists>s. run (think_stream ''q'') (butlast root_completes) = Some s \<and>
        map pc (jobs s) = [AwaitStop]"
    by (simp add: run_eval)
  then obtain s where rm: "run (think_stream ''q'') (butlast root_completes) = Some s \<and>
        map pc (jobs s) = [AwaitStop]" ..
  then have j: "jobs s ! 0 \<in> set (jobs s)" "pc (jobs s ! 0) = AwaitStop"
    by (auto simp: map_eq_Cons_conv)
  have h: "status (root_objective ''q''\<lparr>status := IN_PROGRESS\<rparr>) = IN_PROGRESS \<and>
      length (steps (root_objective ''q''\<lparr>status := IN_PROGRESS\<rparr>)) < MIN_STEPS"
    by (simp add: root_objective_def new_ObjectiveState_def MIN_STEPS_def)
  from rm h j stop_check_only_from_min_steps
      [of "''q''" "butlast root_completes" s "root_objective ''q''\<lparr>status := IN_PROGRESS\<rparr>"
          example_step]
  have "MIN_STEPS \<le> length (steps (objective (jobs s ! 0))) \<and>
        loop_head (root_objective ''q''\<lparr>status := IN_PROGRESS\<rparr>) =
          \<lparr>objective = root_objective ''q''\<lparr>status := IN_PROGRESS\<rparr>, pc = AwaitStep\<rparr>"
    by simp
  with rm show ?thesis by (intro exI [of _ s]) simp
qed

section \<open>How one event changes a job\<close>

lemma do_run_jobs:
  "do_run s i = Some s' \<Longrightarrow>
   i < length (jobs s) \<and> pc (jobs s ! i) = Spawned \<and>
   jobs s' = (jobs s)[i := run_objective (objective (jobs s ! i))]"
  by (auto simp: do_run_def job_at_def set_job_def split: option.splits if_splits)

lemma do_stop_reply_jobs:
  "do_stop_reply s i raw u = Some s' \<Longrightarrow>
   i < length (jobs s) \<and> pc (jobs s ! i) = AwaitStop \<and>
   (jobs s' = jobs s \<or>
    raw \<noteq> [] \<and> jobs s' = (jobs s)[i := resume_stop (objective (jobs s ! i)) raw])"
  by (auto simp: do_stop_reply_def job_at_def set_job_def charge_def abort_def
      non_empty_completion_def split: option.splits if_splits)

lemma do_tool_call_jobs:
  "do_tool_call s i k = Some s' \<Longrightarrow>
   i < length (jobs s) \<and> pc (jobs s ! i) = AwaitStep \<and>
   jobs s' = (jobs s)[i := \<lparr>objective = knowledge_tool (objective (jobs s ! i)) k, pc = AwaitStep\<rparr>]"
  by (auto simp: do_tool_call_def job_at_def set_job_def split: option.splits if_splits)

lemma do_step_reply_jobs:
  "do_step_reply s i raw u = Some s' \<Longrightarrow>
   i < length (jobs s) \<and> pc (jobs s ! i) = AwaitStep \<and>
   (jobs s' = jobs s \<or>
    (\<exists>st. raw = Some st \<and> jobs s' = (jobs s)[i := snd (resume_step (objective (jobs s ! i)) st)]))"
  by (auto simp: do_step_reply_def job_at_def set_job_def charge_def abort_def
      validated_StepState_def split: option.splits if_splits prod.splits)

lemma do_wake_jobs: "do_wake s = Some s' \<Longrightarrow> jobs s' = jobs s"
  by (auto simp: do_wake_def poll_def split: if_splits)

lemma jobs_resume_detect:
  "jobs (resume_detect s tasks) =
     jobs s @ map spawn (snd (admit (objectives s) [] (detect_new_objectives tasks)))"
  by (simp add: resume_detect_def Let_def outer_loop_frame answer_user_def)

lemma do_detect_reply_jobs:
  "do_detect_reply s raw u = Some s' \<Longrightarrow>
   jobs s' = jobs s \<or>
   jobs s' = jobs s @ map spawn (snd (admit (objectives s) [] (detect_new_objectives raw)))"
  by (auto simp: do_detect_reply_def validated_Res_def jobs_resume_detect charge_def abort_def
      objectives_def split: if_splits)

lemma do_answer_reply_jobs: "do_answer_reply s raw u = Some s' \<Longrightarrow> jobs s' = jobs s"
  by (auto simp: do_answer_reply_def charge_def abort_def
      split: if_splits driver_pc.splits sum.splits)


lemma step_new_job:
  assumes "step s a = Some s'" and "length (jobs s) \<le> i" and "i < length (jobs s')"
  shows "\<exists>raw u t. a = DetectReply raw u \<and> t \<in> set raw \<and>
     jobs s' ! i =
       spawn (new_ObjectiveState (t_completion_criteria t) (t_description t) [] (t_short_name t))"
proof (cases a)
  case (DetectReply raw u)
  define new where "new = snd (admit (objectives s) [] (detect_new_objectives raw))"
  from assms DetectReply do_detect_reply_jobs [of s raw u s']
  have j: "jobs s' = jobs s @ map spawn new" by (auto simp: new_def)
  with assms have "i - length (jobs s) < length new" by auto
  then have "new ! (i - length (jobs s)) \<in> set new" by simp
  then obtain t where "t \<in> set raw" and "new ! (i - length (jobs s)) =
      new_ObjectiveState (t_completion_criteria t) (t_description t) [] (t_short_name t)"
    unfolding new_def by (auto dest: admitted_from_detector)
  with assms j DetectReply \<open>i - length (jobs s) < length new\<close> show ?thesis
    by (auto simp: nth_append)
qed (use assms in \<open>auto dest: consumer_frames do_run_jobs do_stop_reply_jobs do_tool_call_jobs
      do_step_reply_jobs do_wake_jobs do_answer_reply_jobs\<close>)













section \<open>How one event changes the driver\<close>









section \<open>The end of the outer loop\<close>



section \<open>Synthesis context, digest and creation of objectives\<close>







text \<open>
  C10. Every objective built from the detector's tasks is PENDING and has no knowledge, no
  step, no transcript and no answer. The session starts with the seed objective alone,
  which holds one knowledge item, the user's question; and over every event of every
  session, an objective that enters the sequence is one built from a task of the
  detector's reply, with those empty fields.
\<close>

theorem created_objectives_start_empty:
  "(\<forall>ob \<in> set (detect_new_objectives tasks).
      status ob = PENDING \<and> knowledges ob = [] \<and> steps ob = [] \<and> history ob = [] \<and>
      answer ob = None) \<and>
   objectives (think_stream question) = [root_objective question] \<and>
   knowledges (root_objective question) =
     [\<lparr>kn_description = question, kn_short_name = ''User question'',
       kn_source = ''User message''\<rparr>] \<and>
   status (root_objective question) = PENDING \<and> steps (root_objective question) = [] \<and>
   history (root_objective question) = [] \<and> answer (root_objective question) = None \<and>
   (run (think_stream question) as = Some s \<and> step s a = Some s' \<longrightarrow>
      (\<forall>i. length (objectives s) \<le> i \<and> i < length (objectives s') \<longrightarrow>
         (\<exists>raw u t. a = DetectReply raw u \<and> t \<in> set raw \<and>
            objectives s' ! i =
              new_ObjectiveState (t_completion_criteria t) (t_description t) []
                (t_short_name t)) \<and>
         status (objectives s' ! i) = PENDING \<and> knowledges (objectives s' ! i) = [] \<and>
         steps (objectives s' ! i) = [] \<and> history (objectives s' ! i) = [] \<and>
         answer (objectives s' ! i) = None))"
proof -
  have "\<forall>ob \<in> set (detect_new_objectives tasks).
      status ob = PENDING \<and> knowledges ob = [] \<and> steps ob = [] \<and> history ob = [] \<and>
      answer ob = None"
    by (auto simp: detect_new_objectives_def new_ObjectiveState_def)
  moreover have "objectives (think_stream question) = [root_objective question]"
    by (simp add: think_stream_def objectives_def outer_loop_frame spawn_def)
  moreover have "knowledges (root_objective question) =
     [\<lparr>kn_description = question, kn_short_name = ''User question'',
       kn_source = ''User message''\<rparr>] \<and>
   status (root_objective question) = PENDING \<and> steps (root_objective question) = [] \<and>
   history (root_objective question) = [] \<and> answer (root_objective question) = None"
    by (simp add: root_objective_def new_ObjectiveState_def)
  moreover have "(\<exists>raw u t. a = DetectReply raw u \<and> t \<in> set raw \<and>
            objectives s' ! i =
              new_ObjectiveState (t_completion_criteria t) (t_description t) []
                (t_short_name t)) \<and>
         status (objectives s' ! i) = PENDING \<and> knowledges (objectives s' ! i) = [] \<and>
         steps (objectives s' ! i) = [] \<and> history (objectives s' ! i) = [] \<and>
         answer (objectives s' ! i) = None"
    if "step s a = Some s'" and "length (objectives s) \<le> i" and "i < length (objectives s')"
    for i
  proof -
    from that have i: "length (jobs s) \<le> i" "i < length (jobs s')"
      by (simp_all add: objectives_def)
    from step_new_job [OF that(1) i] i(2) show ?thesis
      by (auto simp: objectives_def spawn_def new_ObjectiveState_def)
  qed
  ultimately show ?thesis by blast
qed

theorem created_objectives_start_empty_witness:
  "\<exists>s s'. run (think_stream ''q'') (butlast three_proposals) = Some s \<and>
     step s (last three_proposals) = Some s' \<and>
     length (objectives s) = 1 \<and> length (objectives s') = 3 \<and>
     map knowledges (objectives s') =
       [[\<lparr>kn_description = ''q'', kn_short_name = ''User question'',
          kn_source = ''User message''\<rparr>], [], []] \<and>
     status (objectives s' ! 2) = PENDING \<and> steps (objectives s' ! 2) = [] \<and>
     history (objectives s' ! 2) = [] \<and> answer (objectives s' ! 2) = None"
proof -
  have "\<exists>s. run (think_stream ''q'') (butlast three_proposals) = Some s \<and>
     length (objectives s) = 1 \<and>
     (\<exists>s'. step s (last three_proposals) = Some s' \<and> length (objectives s') = 3 \<and>
       map knowledges (objectives s') =
         [[\<lparr>kn_description = ''q'', kn_short_name = ''User question'',
            kn_source = ''User message''\<rparr>], [], []])"
    by (simp add: run_eval)
  then obtain s s' where r: "run (think_stream ''q'') (butlast three_proposals) = Some s"
    and st: "step s (last three_proposals) = Some s'"
    and l: "length (objectives s) = 1" "length (objectives s') = 3"
    and k: "map knowledges (objectives s') =
         [[\<lparr>kn_description = ''q'', kn_short_name = ''User question'',
            kn_source = ''User message''\<rparr>], [], []]"
    by (elim exE conjE)
  from created_objectives_start_empty
    [of "[]" "''q''" "butlast three_proposals" s "last three_proposals" s',
      THEN conjunct2, THEN conjunct2, THEN conjunct2, THEN conjunct2, THEN conjunct2,
      THEN conjunct2, THEN conjunct2, THEN mp, OF conjI [OF r st], THEN spec, of 2] l
  have "status (objectives s' ! 2) = PENDING \<and> steps (objectives s' ! 2) = [] \<and>
     history (objectives s' ! 2) = [] \<and> answer (objectives s' ! 2) = None"
    by simp
  with r st l k show ?thesis by (intro exI [of _ s] exI [of _ s']) simp
qed

section \<open>The stream\<close>








end
